theory Spec2Isabelle
  imports Main "HOL-Library.Sublist"
begin

section \<open>reposync: a shallow embedding of \<^verbatim>\<open>main.go\<close>\<close>

text \<open>
  The program lists the repositories of a GitHub account, lists the directories of a
  working directory, and moves away (archives) or clones what differs. Every function
  of \<^verbatim>\<open>main.go\<close> is embedded below under its own name. Go strings are
  \<^typ>\<open>string\<close>, a Go \<^verbatim>\<open>error\<close> is the text of its
  \<^verbatim>\<open>Error()\<close> method, and a \<^verbatim>\<open>nil\<close> error is \<^const>\<open>None\<close>.
\<close>

subsection \<open>Set utilities (lines 65--85)\<close>

text \<open>
  \<^verbatim>\<open>Contains\<close> walks the list and returns at the first equal element.
\<close>

fun Contains :: "string list \<Rightarrow> string \<Rightarrow> bool" where
  "Contains [] el = False"
| "Contains (str # list) el = (if str = el then True else Contains list el)"

text \<open>
  The loop of \<^verbatim>\<open>Difference\<close>: the first argument is the part of \<open>a\<close> still to
  visit, the last one is the slice \<^verbatim>\<open>diff\<close> built so far
  (\<^verbatim>\<open>append\<close> adds at the end).
\<close>

fun Difference_loop :: "string list \<Rightarrow> string list \<Rightarrow> string list \<Rightarrow> string list" where
  "Difference_loop [] b diff = diff"
| "Difference_loop (str # a) b diff =
     (if Contains b str then Difference_loop a b diff
      else Difference_loop a b (diff @ [str]))"

definition Difference :: "string list \<Rightarrow> string list \<Rightarrow> string list" where
  "Difference a b = Difference_loop a b []"

subsection \<open>The world outside the program\<close>

text \<open>
  The program talks to the GitHub API, to the file system, to \<^verbatim>\<open>git\<close> and to the
  logger. Each such call is recorded as an \<open>event\<close> of a trace, in the order the calls
  are made. \<open>Join a b\<close> stands for the value of \<^verbatim>\<open>path.Join(a, b)\<close>, which is
  left uninterpreted.
\<close>

datatype path = Join string string

record ListOptions =
  Page :: int
  PerPage :: int

record Repository =
  Name :: "string option"
  Fork :: "bool option"

datatype FileInfo = FileInfo (file_Name: string) (IsDir: bool)

datatype api_call =
    Repositories_ListByOrg string string ListOptions
  | Repositories_List string string ListOptions

datatype event =
    Log string
  | Println string
  | Api string api_call
  | ReadDir string
  | MkdirAll string
  | Rename path path
  | GitClone string path

text \<open>
  What the world answers is not decided by the program, so it is a parameter: every
  answer may depend on the whole trace so far.
  \<^item> \<open>github\<close>: one page request with the given token; \<open>Inl err\<close>, or the
    repositories of the page and the response's \<^verbatim>\<open>NextPage\<close>;
  \<^item> \<open>ioutil_ReadDir\<close>: \<open>Inl err\<close> or the entries; \<^verbatim>\<open>ioutil.ReadDir\<close> returns a
    nil slice together with an error;
  \<^item> \<open>os_MkdirAll\<close>, \<open>os_Rename\<close>: the error, if any;
  \<^item> \<open>git_clone\<close>: the combined output and the error, if any, of
    \<^verbatim>\<open>exec.Command("git", "clone", url, dest).CombinedOutput()\<close>.
\<close>

record env =
  github :: "event list \<Rightarrow> string \<Rightarrow> api_call \<Rightarrow> string + (Repository list \<times> int)"
  ioutil_ReadDir :: "event list \<Rightarrow> string \<Rightarrow> string + FileInfo list"
  os_MkdirAll :: "event list \<Rightarrow> string \<Rightarrow> string option"
  os_Rename :: "event list \<Rightarrow> path \<Rightarrow> path \<Rightarrow> string option"
  git_clone :: "event list \<Rightarrow> string \<Rightarrow> path \<Rightarrow> string \<times> string option"

text \<open>
  The state of one \<^verbatim>\<open>Sync\<close> call: the trace, and the two variables of
  \<^verbatim>\<open>Sync\<close> that its closures append to.
\<close>

record state =
  trace :: "event list"
  allRepos :: "string list"
  currentRepos :: "string list"

definition emit :: "event \<Rightarrow> state \<Rightarrow> state" where
  "emit e s = s\<lparr>trace := trace s @ [e]\<rparr>"

definition log_Printf :: "string \<Rightarrow> state \<Rightarrow> state" where
  "log_Printf line s = emit (Log line) s"

text \<open>
  \<^verbatim>\<open>strings.Index(s, substr)\<close>: the index of the first instance of \<open>substr\<close> in
  \<open>s\<close>, or \<open>-1\<close>.
\<close>

fun strings_Index :: "string \<Rightarrow> string \<Rightarrow> int" where
  "strings_Index [] substr = (if substr = [] then 0 else - 1)"
| "strings_Index (c # s) substr =
     (if prefix substr (c # s) then 0
      else (let i = strings_Index s substr in if i < 0 then - 1 else i + 1))"

subsection \<open>Task (lines 87--104)\<close>

text \<open>
  The function of a task runs on the state and returns its error; \<^const>\<open>None\<close> is a
  function that never returns.
\<close>

type_synonym action = "state \<Rightarrow> (state \<times> string option) option"

record Task =
  task :: action
  description :: string

definition NewTask :: "action \<Rightarrow> string \<Rightarrow> Task" where
  "NewTask f d = \<lparr>task = f, description = d\<rparr>"

definition Task_Run :: "Task \<Rightarrow> state \<Rightarrow> state option" where
  "Task_Run tws s =
     (case task tws (log_Printf (''begin '' @ description tws) s) of
        None \<Rightarrow> None
      | Some (s', err) \<Rightarrow>
          (case err of
             Some e \<Rightarrow> Some (log_Printf (''error '' @ description tws @ '': '' @ e) s')
           | None \<Rightarrow> Some (log_Printf (''finished '' @ description tws) s')))"

subsection \<open>RepoSync and the closures of Sync (lines 106--241)\<close>

record RepoSync =
  org :: string
  orgRepoType :: string
  user :: string
  userRepoType :: string
  userRepoForks :: bool
  workdir :: string
  archivedir :: string
  token :: string
  dryrun :: bool

text \<open>The inner loops over one page (lines 138--143 and 159--167).\<close>

fun append_org_page :: "Repository list \<Rightarrow> string list \<Rightarrow> string list" where
  "append_org_page [] all = all"
| "append_org_page (repo # repos) all =
     (case Name repo of
        None \<Rightarrow> append_org_page repos all
      | Some n \<Rightarrow> append_org_page repos (all @ [n]))"

fun append_user_page :: "RepoSync \<Rightarrow> Repository list \<Rightarrow> string list \<Rightarrow> string list" where
  "append_user_page rs [] all = all"
| "append_user_page rs (repo # repos) all =
     (case Name repo of
        None \<Rightarrow> append_user_page rs repos all
      | Some n \<Rightarrow>
          (if userRepoForks rs = False \<and> Fork repo \<noteq> None \<and> the (Fork repo)
           then append_user_page rs repos all
           else append_user_page rs repos (all @ [n])))"

text \<open>
  The page loops (lines 133--148 and 154--172). \<open>page\<close> is
  \<^verbatim>\<open>opt.ListOptions.Page\<close>; the loop may go on forever, when the provider never
  answers \<^verbatim>\<open>NextPage == 0\<close>.
\<close>

partial_function (option) list_by_org ::
  "env \<Rightarrow> RepoSync \<Rightarrow> int \<Rightarrow> state \<Rightarrow> (state \<times> string option) option" where
  "list_by_org env rs page s =
     (let call = Repositories_ListByOrg (org rs) (orgRepoType rs) \<lparr>Page = page, PerPage = 100\<rparr>;
          s1 = emit (Api (token rs) call) s
      in case github env (trace s) (token rs) call of
           Inl err \<Rightarrow> Some (s1, Some err)
         | Inr (repos, NextPage) \<Rightarrow>
             (let s2 = s1\<lparr>allRepos := append_org_page repos (allRepos s1)\<rparr>
              in if NextPage = 0 then Some (s2, None)
                 else list_by_org env rs NextPage s2))"

partial_function (option) list_by_user ::
  "env \<Rightarrow> RepoSync \<Rightarrow> int \<Rightarrow> state \<Rightarrow> (state \<times> string option) option" where
  "list_by_user env rs page s =
     (let call = Repositories_List (user rs) (userRepoType rs) \<lparr>Page = page, PerPage = 1000\<rparr>;
          s1 = emit (Api (token rs) call) s
      in case github env (trace s) (token rs) call of
           Inl err \<Rightarrow> Some (s1, Some err)
         | Inr (repos, NextPage) \<Rightarrow>
             (let s2 = s1\<lparr>allRepos := append_user_page rs repos (allRepos s1)\<rparr>
              in if NextPage = 0 then Some (s2, None)
                 else list_by_user env rs NextPage s2))"

declare list_by_org.simps [code] list_by_user.simps [code]

text \<open>The first closure (lines 122--175): \<^verbatim>\<open>Page\<close> starts at its zero value.\<close>

definition loading_repos :: "env \<Rightarrow> RepoSync \<Rightarrow> action" where
  "loading_repos env rs s =
     (if org rs \<noteq> '''' then list_by_org env rs 0 s
      else if user rs \<noteq> '''' then list_by_user env rs 0 s
      else Some (s, None))"

text \<open>The second closure (lines 179--188); the error of the directory read is dropped.\<close>

fun append_dirs :: "FileInfo list \<Rightarrow> string list \<Rightarrow> string list" where
  "append_dirs [] cur = cur"
| "append_dirs (f # files) cur =
     (if \<not> IsDir f \<or> strings_Index (file_Name f) ''.'' = 0
      then append_dirs files cur
      else append_dirs files (cur @ [file_Name f]))"

definition loading_cloned :: "env \<Rightarrow> RepoSync \<Rightarrow> action" where
  "loading_cloned env rs s =
     (let files = (case ioutil_ReadDir env (trace s) (workdir rs) of
                     Inl err \<Rightarrow> []
                   | Inr fs \<Rightarrow> fs);
          s1 = emit (ReadDir (workdir rs)) s
      in Some (s1\<lparr>currentRepos := append_dirs files (currentRepos s1)\<rparr>, None))"

text \<open>The closure of an archiver (lines 206--211).\<close>

definition archiving :: "env \<Rightarrow> RepoSync \<Rightarrow> string \<Rightarrow> action" where
  "archiving env rs r s =
     (if dryrun rs then Some (s, None)
      else Some (emit (Rename (Join (workdir rs) r) (Join (archivedir rs) r)) s,
                 os_Rename env (trace s) (Join (workdir rs) r) (Join (archivedir rs) r)))"

text \<open>
  The closure of a cloner (lines 220--234); \<open>git_clone_from\<close> is the clone command
  and its error, written twice in the source, for the organization and for the user.
\<close>

definition git_clone_from ::
  "env \<Rightarrow> RepoSync \<Rightarrow> string \<Rightarrow> string \<Rightarrow> state \<Rightarrow> state \<times> string option" where
  "git_clone_from env rs account r s =
     (let url = ''git@github.com:'' @ account @ ''/'' @ r;
          dest = Join (workdir rs) r
      in case git_clone env (trace s) url dest of
           (output, Some err) \<Rightarrow> (emit (GitClone url dest) s, Some (err @ '' from '' @ output))
         | (output, None) \<Rightarrow> (emit (GitClone url dest) s, None))"

definition cloning :: "env \<Rightarrow> RepoSync \<Rightarrow> string \<Rightarrow> action" where
  "cloning env rs r s =
     (if dryrun rs then Some (s, None)
      else if org rs \<noteq> '''' then Some (git_clone_from env rs (org rs) r s)
      else Some (git_clone_from env rs (user rs) r s))"

subsection \<open>Goroutines\<close>

text \<open>
  Each archiver and each cloner runs \<^verbatim>\<open>Task.Run\<close> in a goroutine of its own. A
  goroutine is a task and the point its \<^verbatim>\<open>Run\<close> has reached: not yet started, the
  begin line written, the function returned (with its error), or finished. One step
  takes it to the next point.
\<close>

datatype pc = Spawned | Begun | Returned "string option" | Exited

type_synonym goroutine = "Task \<times> pc"

fun step :: "goroutine \<Rightarrow> state \<Rightarrow> (goroutine \<times> state) option" where
  "step (tws, Spawned) s = Some ((tws, Begun), log_Printf (''begin '' @ description tws) s)"
| "step (tws, Begun) s =
     (case task tws s of
        None \<Rightarrow> None
      | Some (s', err) \<Rightarrow> Some ((tws, Returned err), s'))"
| "step (tws, Returned (Some e)) s =
     Some ((tws, Exited), log_Printf (''error '' @ description tws @ '': '' @ e) s)"
| "step (tws, Returned None) s =
     Some ((tws, Exited), log_Printf (''finished '' @ description tws) s)"
| "step (tws, Exited) s = Some ((tws, Exited), s)"

text \<open>Three steps take a goroutine from any point to its end.\<close>

definition finish :: "goroutine \<Rightarrow> state \<Rightarrow> state option" where
  "finish g s =
     (case step g s of
        None \<Rightarrow> None
      | Some (g1, s1) \<Rightarrow>
          (case step g1 s1 of
             None \<Rightarrow> None
           | Some (g2, s2) \<Rightarrow>
               (case step g2 s2 of
                  None \<Rightarrow> None
                | Some (g3, s3) \<Rightarrow> Some s3)))"

fun finish_all :: "goroutine list \<Rightarrow> state \<Rightarrow> state option" where
  "finish_all [] s = Some s"
| "finish_all (g # gs) s =
     (case finish g s of
        None \<Rightarrow> None
      | Some s' \<Rightarrow> finish_all gs s')"

text \<open>
  The goroutines interleave as the scheduler decides. A schedule is a list of numbers:
  each picks the goroutine that takes the next step (a finished one stays as it is).
  When the schedule is used up, the goroutines left run to their ends one after the
  other, so that both \<^verbatim>\<open>Wait\<close> calls of \<^verbatim>\<open>Sync\<close> return. Every
  interleaving of the steps is the run of some schedule.
\<close>

fun run_goroutines :: "nat list \<Rightarrow> goroutine list \<Rightarrow> state \<Rightarrow> state option" where
  "run_goroutines [] gs s = finish_all gs s"
| "run_goroutines (k # ks) gs s =
     (if gs = [] then Some s
      else (case step (gs ! (k mod length gs)) s of
              None \<Rightarrow> None
            | Some (g', s') \<Rightarrow> run_goroutines ks (gs[k mod length gs := g']) s'))"

definition archivers :: "env \<Rightarrow> RepoSync \<Rightarrow> string list \<Rightarrow> goroutine list" where
  "archivers env rs reposToArchive =
     map (\<lambda>r. (NewTask (archiving env rs r) (''archiving '' @ r), Spawned)) reposToArchive"

definition cloners :: "env \<Rightarrow> RepoSync \<Rightarrow> string list \<Rightarrow> goroutine list" where
  "cloners env rs reposToClone =
     map (\<lambda>r. (NewTask (cloning env rs r) (''cloning '' @ r), Spawned)) reposToClone"

subsection \<open>Sync (lines 118--241)\<close>

text \<open>
  \<^verbatim>\<open>Sync\<close> returns the final state and its error, or \<^const>\<open>None\<close> when it
  never returns.
\<close>

definition Sync :: "env \<Rightarrow> nat list \<Rightarrow> RepoSync \<Rightarrow> (state \<times> string option) option" where
  "Sync env sched rs =
     (case Task_Run (NewTask (loading_repos env rs)
                       (''loading repos for '' @ org rs @ '' '' @ user rs))
             \<lparr>trace = [], allRepos = [], currentRepos = []\<rparr> of
        None \<Rightarrow> None
      | Some s1 \<Rightarrow>
     (case Task_Run (NewTask (loading_cloned env rs)
                       (''loading repos already cloned in '' @ workdir rs)) s1 of
        None \<Rightarrow> None
      | Some s2 \<Rightarrow>
     (let reposToArchive = Difference (currentRepos s2) (allRepos s2);
          reposToClone = Difference (allRepos s2) (currentRepos s2)
      in if length reposToArchive + length reposToClone = 0
         then Some (log_Printf ''nothing to do!'' s2, None)
         else (case os_MkdirAll env (trace s2) (archivedir rs) of
                 Some err \<Rightarrow> Some (emit (MkdirAll (archivedir rs)) s2, Some err)
               | None \<Rightarrow>
                   (case run_goroutines sched
                           (archivers env rs reposToArchive @ cloners env rs reposToClone)
                           (emit (MkdirAll (archivedir rs)) s2) of
                      None \<Rightarrow> None
                    | Some s3 \<Rightarrow> Some (s3, None))))))"

subsection \<open>main (lines 21--63)\<close>

text \<open>
  The values of the flags after \<^verbatim>\<open>flag.Parse()\<close>. \<^verbatim>\<open>main\<close> ends with an
  exit status: 0 when it returns or after printing the version, 1 after
  \<^verbatim>\<open>log.Fatal\<close>, which writes its line first.
\<close>

record Flags =
  versionflag :: bool
  flag_user :: string
  flag_userRepoType :: string
  flag_userRepoForks :: bool
  flag_org :: string
  flag_orgRepoType :: string
  flag_dir :: string
  flag_archivedir :: string
  flag_token :: string
  flag_dryrun :: bool

definition main :: "env \<Rightarrow> nat list \<Rightarrow> string \<Rightarrow> Flags \<Rightarrow> (event list \<times> int) option" where
  "main env sched Version fl =
     (if versionflag fl then Some ([Println Version], 0)
      else if flag_user fl = '''' \<and> flag_org fl = ''''
        then Some ([Log ''must provide user or org''], 1)
      else if flag_dir fl = '''' then Some ([Log ''must provide dir''], 1)
      else if flag_archivedir fl = '''' then Some ([Log ''must provide archivedir''], 1)
      else if flag_token fl = '''' then Some ([Log ''must provide token''], 1)
      else (let rs = \<lparr>org = flag_org fl, orgRepoType = flag_orgRepoType fl,
                      user = flag_user fl, userRepoType = flag_userRepoType fl,
                      userRepoForks = flag_userRepoForks fl, workdir = flag_dir fl,
                      archivedir = flag_archivedir fl, token = flag_token fl,
                      dryrun = flag_dryrun fl\<rparr>
            in case Sync env sched rs of
                 None \<Rightarrow> None
               | Some (s, Some err) \<Rightarrow> Some (trace s @ [Log err], 1)
               | Some (s, None) \<Rightarrow> Some (trace s, 0)))"

section \<open>Notions used in the statements\<close>

text \<open>
  None of the definitions of this section is part of the program: they name what the
  statements below speak about.
\<close>

subsection \<open>The remote listing\<close>

text \<open>
  The request for one page, in the mode \<^verbatim>\<open>Sync\<close> chooses: by organization when
  \<^verbatim>\<open>rs.org\<close> is set, by user otherwise.
\<close>

definition request :: "RepoSync \<Rightarrow> int \<Rightarrow> api_call" where
  "request rs page =
     (if org rs \<noteq> ''''
      then Repositories_ListByOrg (org rs) (orgRepoType rs) \<lparr>Page = page, PerPage = 100\<rparr>
      else Repositories_List (user rs) (userRepoType rs) \<lparr>Page = page, PerPage = 1000\<rparr>)"

text \<open>
  The entries of a page the specification keeps: those with a name and, in user mode
  with forks excluded, not flagged as a fork.
\<close>

definition kept :: "RepoSync \<Rightarrow> Repository \<Rightarrow> bool" where
  "kept rs repo \<longleftrightarrow>
     Name repo \<noteq> None \<and> \<not> (org rs = '''' \<and> \<not> userRepoForks rs \<and> Fork repo = Some True)"

definition page_names :: "RepoSync \<Rightarrow> Repository list \<Rightarrow> string list" where
  "page_names rs repos = map (\<lambda>repo. the (Name repo)) (filter (kept rs) repos)"

text \<open>
  \<open>served env rs tr page ps\<close>: asked for \<open>page\<close> after the trace \<open>tr\<close>, and then for
  every page it announces, the provider answers with the pages \<open>ps\<close> in turn, each
  announcing a further page. The result is the trace and the page number after them.
\<close>

fun served ::
  "env \<Rightarrow> RepoSync \<Rightarrow> event list \<Rightarrow> int \<Rightarrow> Repository list list \<Rightarrow> (event list \<times> int) option"
where
  "served env rs tr page [] = Some (tr, page)"
| "served env rs tr page (repos # ps) =
     (case github env tr (token rs) (request rs page) of
        Inl err \<Rightarrow> None
      | Inr (repos', NextPage) \<Rightarrow>
          (if repos' = repos \<and> NextPage \<noteq> 0
           then served env rs (tr @ [Api (token rs) (request rs page)]) NextPage ps
           else None))"

text \<open>An answer that ends the page loop, the names it adds and the error it leaves.\<close>

definition stops :: "string + Repository list \<times> int \<Rightarrow> bool" where
  "stops r = (case r of Inl err \<Rightarrow> True | Inr (repos, NextPage) \<Rightarrow> NextPage = 0)"

definition last_names :: "RepoSync \<Rightarrow> string + Repository list \<times> int \<Rightarrow> string list" where
  "last_names rs r = (case r of Inl err \<Rightarrow> [] | Inr (repos, NextPage) \<Rightarrow> page_names rs repos)"

definition last_error :: "string + Repository list \<times> int \<Rightarrow> string option" where
  "last_error r = (case r of Inl err \<Rightarrow> Some err | Inr x \<Rightarrow> None)"

subsection \<open>The local listing\<close>

text \<open>
  The names the specification keeps of a directory read: those of the directories
  whose name does not start with a dot; none when the read fails.
\<close>

definition local_names :: "string + FileInfo list \<Rightarrow> string list" where
  "local_names answer =
     (case answer of
        Inl err \<Rightarrow> []
      | Inr files \<Rightarrow> map file_Name (filter (\<lambda>f. IsDir f \<and> \<not> prefix ''.'' (file_Name f)) files))"

subsection \<open>The two phases of Sync\<close>

text \<open>
  The state after the two listing tasks of \<^verbatim>\<open>Sync\<close> (lines 121--188), if both
  return.
\<close>

definition listings :: "env \<Rightarrow> RepoSync \<Rightarrow> state option" where
  "listings env rs =
     (case Task_Run (NewTask (loading_repos env rs)
                       (''loading repos for '' @ org rs @ '' '' @ user rs))
             \<lparr>trace = [], allRepos = [], currentRepos = []\<rparr> of
        None \<Rightarrow> None
      | Some s1 \<Rightarrow>
          Task_Run (NewTask (loading_cloned env rs)
                      (''loading repos already cloned in '' @ workdir rs)) s1)"

text \<open>The events that change the file system.\<close>

fun mutation :: "event \<Rightarrow> bool" where
  "mutation (MkdirAll d) = True"
| "mutation (Rename a b) = True"
| "mutation (GitClone u d) = True"
| "mutation e = False"

text \<open>The account the clone addresses name.\<close>

definition account :: "RepoSync \<Rightarrow> string" where
  "account rs = (if org rs \<noteq> '''' then org rs else user rs)"

subsection \<open>What a goroutine has done\<close>





subsection \<open>Worlds and configurations of the examples\<close>

text \<open>
  A world whose provider answers by page number alone, whose directory read always
  gives the same answer, and where creating, renaming and cloning succeed.
\<close>

definition page_of :: "api_call \<Rightarrow> int" where
  "page_of call =
     (case call of
        Repositories_ListByOrg a t opt \<Rightarrow> Page opt
      | Repositories_List a t opt \<Rightarrow> Page opt)"

definition world :: "(int \<Rightarrow> string + Repository list \<times> int) \<Rightarrow> string + FileInfo list \<Rightarrow> env" where
  "world pages dir =
     \<lparr>github = (\<lambda>tr tok call. pages (page_of call)),
      ioutil_ReadDir = (\<lambda>tr d. dir),
      os_MkdirAll = (\<lambda>tr d. None),
      os_Rename = (\<lambda>tr a b. None),
      git_clone = (\<lambda>tr url dest. ('''', None))\<rparr>"

definition repo :: "string \<Rightarrow> bool \<Rightarrow> Repository" where
  "repo n f = \<lparr>Name = Some n, Fork = Some f\<rparr>"

definition nameless :: Repository where
  "nameless = \<lparr>Name = None, Fork = None\<rparr>"

text \<open>Two pages, the first announcing page 2; the same with a failing second page;
  a provider that is down; an account without repositories.\<close>

definition two_pages :: "int \<Rightarrow> string + Repository list \<times> int" where
  "two_pages page =
     (if page = 0 then Inr ([repo ''a'' False, nameless, repo ''b'' True], 2)
      else if page = 2 then Inr ([repo ''c'' False], 0)
      else Inl ''404'')"



definition no_repos :: "int \<Rightarrow> string + Repository list \<times> int" where
  "no_repos page = Inr ([], 0)"

text \<open>A working directory with a hidden directory, a file and the checkouts \<open>a\<close> and
  \<open>x\<close>, and one with the checkouts \<open>a\<close> and \<open>c\<close>.\<close>

definition checkouts :: "FileInfo list" where
  "checkouts =
     [FileInfo ''.git'' True, FileInfo ''a'' True, FileInfo ''n.txt'' False, FileInfo ''x'' True]"

definition in_sync :: "FileInfo list" where
  "in_sync = [FileInfo ''a'' True, FileInfo ''c'' True]"

text \<open>A user configuration that excludes forks.\<close>

definition of_user :: RepoSync where
  "of_user =
     \<lparr>org = '''', orgRepoType = ''all'', user = ''u'', userRepoType = ''all'',
      userRepoForks = False, workdir = ''w'', archivedir = ''old'', token = ''t'',
      dryrun = False\<rparr>"

text \<open>Flags that give both a user and an organization, and their configuration.\<close>

definition both_flags :: Flags where
  "both_flags =
     \<lparr>versionflag = False, flag_user = ''u'', flag_userRepoType = ''all'',
      flag_userRepoForks = False, flag_org = ''o'', flag_orgRepoType = ''all'',
      flag_dir = ''w'', flag_archivedir = ''old'', flag_token = ''t'', flag_dryrun = False\<rparr>"

definition of_both :: RepoSync where
  "of_both =
     \<lparr>org = ''o'', orgRepoType = ''all'', user = ''u'', userRepoType = ''all'',
      userRepoForks = False, workdir = ''w'', archivedir = ''old'', token = ''t'',
      dryrun = False\<rparr>"

section \<open>Properties\<close>

subsection \<open>Set utilities\<close>

lemma Contains_iff: "Contains list el \<longleftrightarrow> el \<in> set list"
  by (induction list) auto

lemma Difference_loop_filter:
  "Difference_loop a b diff = diff @ filter (\<lambda>str. str \<notin> set b) a"
  by (induction a arbitrary: diff) (simp_all add: Contains_iff)

lemma Difference_filter: "Difference a b = filter (\<lambda>str. str \<notin> set b) a"
  by (simp add: Difference_def Difference_loop_filter)

text \<open>
  Claim C4. For all string lists \<open>a\<close> and \<open>b\<close>, \<^verbatim>\<open>Difference(a, b)\<close> is \<open>a\<close> with
  exactly the elements that have an equal element in \<open>b\<close> removed: the remaining ones
  keep their order and their multiplicity (it is the sublist \<open>filter\<close> selects, and each
  string outside \<open>b\<close> occurs in it as often as in \<open>a\<close>). In particular
  \<^verbatim>\<open>Difference(a, a)\<close> is empty, \<^verbatim>\<open>Difference(a, [])\<close> is \<open>a\<close> and
  \<^verbatim>\<open>Difference([], b)\<close> is empty.
\<close>

theorem Difference_exact:
  "Difference a b = filter (\<lambda>str. \<not> Contains b str) a
   \<and> set (Difference a b) = set a - set b
   \<and> subseq (Difference a b) a
   \<and> count_list (Difference a b) x = (if Contains b x then 0 else count_list a x)
   \<and> Difference a a = []
   \<and> Difference a [] = a
   \<and> Difference [] b = []"
proof -
  have cnt: "count_list (filter P xs) x = (if P x then count_list xs x else 0)"
    for P and xs :: "string list"
    by (induction xs) auto
  have "Difference a b = filter (\<lambda>str. \<not> Contains b str) a"
    by (simp add: Difference_filter Contains_iff)
  moreover have "set (Difference a b) = set a - set b"
    by (auto simp: Difference_filter)
  moreover have "subseq (Difference a b) a"
    by (simp add: Difference_filter)
  moreover have "count_list (Difference a b) x = (if Contains b x then 0 else count_list a x)"
    by (simp add: Difference_filter Contains_iff cnt)
  moreover have "Difference a a = []"
    by (simp add: Difference_filter)
  moreover have "Difference a [] = a"
    by (simp add: Difference_filter)
  moreover have "Difference [] b = []"
    by (simp add: Difference_filter)
  ultimately show ?thesis by blast
qed

subsection \<open>The task runner\<close>

text \<open>
  One run of a task whose function returns: the line that closes it comes after
  everything the function did.
\<close>

lemma Task_Run_eq:
  assumes "f (s\<lparr>trace := trace s @ [Log (''begin '' @ d)]\<rparr>) = Some (s', err)"
  shows "Task_Run (NewTask f d) s =
           Some (s'\<lparr>trace := trace s' @ [Log (case err of None \<Rightarrow> ''finished '' @ d
                                                | Some cause \<Rightarrow> ''error '' @ d @ '': '' @ cause)]\<rparr>)"
  using assms by (simp add: Task_Run_def NewTask_def log_Printf_def emit_def split: option.splits)

text \<open>
  Claim C6. For every function \<open>f\<close> and description \<open>d\<close>, the task runner first
  writes the line \<open>begin d\<close> and runs \<open>f\<close> on the state that has it; when \<open>f\<close>
  returns without an error it writes \<open>finished d\<close> after what \<open>f\<close> did, and when
  \<open>f\<close> returns the error \<open>cause\<close> it writes \<open>error d: cause\<close>. The caller gets the
  state alone: the error is not part of what \<^verbatim>\<open>Run\<close> returns. (When \<open>f\<close> never
  returns, neither does \<^verbatim>\<open>Run\<close>.)
\<close>

theorem Task_Run_logs:
  "Task_Run (NewTask f d) s =
     (case f (s\<lparr>trace := trace s @ [Log (''begin '' @ d)]\<rparr>) of
        None \<Rightarrow> None
      | Some (s', None) \<Rightarrow> Some (s'\<lparr>trace := trace s' @ [Log (''finished '' @ d)]\<rparr>)
      | Some (s', Some cause) \<Rightarrow>
          Some (s'\<lparr>trace := trace s' @ [Log (''error '' @ d @ '': '' @ cause)]\<rparr>))"
  by (simp add: Task_Run_def NewTask_def log_Printf_def emit_def split: option.splits)

subsection \<open>The local lister\<close>

text \<open>
  The test of the loop, \<^verbatim>\<open>strings.Index(f.Name(), ".") == 0\<close>, holds exactly for the names
  that start with a dot.
\<close>

lemma strings_Index_0: "strings_Index s substr = 0 \<longleftrightarrow> prefix substr s"
  by (cases s) (auto simp: Let_def)

lemma append_dirs_eq:
  "append_dirs files cur =
     cur @ map file_Name (filter (\<lambda>f. IsDir f \<and> \<not> prefix ''.'' (file_Name f)) files)"
  by (induction files arbitrary: cur) (auto simp: strings_Index_0)

lemma loading_cloned_eq:
  "loading_cloned env rs s =
     Some (s\<lparr>trace := trace s @ [ReadDir (workdir rs)],
             currentRepos := currentRepos s @ local_names (ioutil_ReadDir env (trace s) (workdir rs))\<rparr>,
           None)"
  by (simp add: loading_cloned_def local_names_def emit_def append_dirs_eq split: sum.splits)

text \<open>
  Claim C7. The local lister reads the working directory once and appends to
  \<^verbatim>\<open>currentRepos\<close> exactly the names of the entries that are directories and whose
  name does not start with a dot, in the order of the read; when the read fails it
  appends nothing. It never returns an error, so its task always logs
  \<open>finished\<close>; in \<^verbatim>\<open>Sync\<close> the list is empty before.
\<close>

theorem loading_cloned_lists_directories:
  "loading_cloned env rs s =
     Some (s\<lparr>trace := trace s @ [ReadDir (workdir rs)],
             currentRepos := currentRepos s @
               (case ioutil_ReadDir env (trace s) (workdir rs) of
                  Inl err \<Rightarrow> []
                | Inr files \<Rightarrow>
                    map file_Name (filter (\<lambda>f. IsDir f \<and> \<not> prefix ''.'' (file_Name f)) files))\<rparr>,
           None)
   \<and> Task_Run (NewTask (loading_cloned env rs) d) \<lparr>trace = tr, allRepos = all, currentRepos = []\<rparr> =
       Some \<lparr>trace = tr @ [Log (''begin '' @ d), ReadDir (workdir rs), Log (''finished '' @ d)],
             allRepos = all,
             currentRepos =
               (case ioutil_ReadDir env (tr @ [Log (''begin '' @ d)]) (workdir rs) of
                  Inl err \<Rightarrow> []
                | Inr files \<Rightarrow>
                    map file_Name (filter (\<lambda>f. IsDir f \<and> \<not> prefix ''.'' (file_Name f)) files))\<rparr>"
proof -
  have "loading_cloned env rs s =
     Some (s\<lparr>trace := trace s @ [ReadDir (workdir rs)],
             currentRepos := currentRepos s @
               (case ioutil_ReadDir env (trace s) (workdir rs) of
                  Inl err \<Rightarrow> []
                | Inr files \<Rightarrow>
                    map file_Name (filter (\<lambda>f. IsDir f \<and> \<not> prefix ''.'' (file_Name f)) files))\<rparr>,
           None)" for s
    by (simp add: loading_cloned_eq local_names_def)
  then show ?thesis
    by (simp add: Task_Run_def NewTask_def log_Printf_def emit_def)
qed

subsection \<open>The remote lister\<close>

text \<open>
  The inner loops append the names the specification keeps.
\<close>

lemma append_org_page_names:
  "org rs \<noteq> '''' \<Longrightarrow> append_org_page repos all = all @ page_names rs repos"
  by (induction repos arbitrary: all) (auto simp: page_names_def kept_def split: option.splits)

lemma append_user_page_names:
  "org rs = '''' \<Longrightarrow> append_user_page rs repos all = all @ page_names rs repos"
  by (induction repos arbitrary: all) (auto simp: page_names_def kept_def split: option.splits)

text \<open>
  The page loops, by induction on the pages served: the last answer is an error or a
  page whose \<^verbatim>\<open>NextPage\<close> is 0.
\<close>

lemma list_by_org_served:
  assumes "org rs \<noteq> ''''"
      and "served env rs (trace s) page ps = Some (tr, p)"
      and "stops (github env tr (token rs) (request rs p))"
  shows "list_by_org env rs page s =
           Some (s\<lparr>trace := tr @ [Api (token rs) (request rs p)],
                   allRepos := allRepos s @ concat (map (page_names rs) ps)
                                 @ last_names rs (github env tr (token rs) (request rs p))\<rparr>,
                 last_error (github env tr (token rs) (request rs p)))"
  using assms
proof (induction ps arbitrary: page s)
  case Nil
  then show ?case
    by (subst list_by_org.simps)
       (auto simp add: request_def emit_def append_org_page_names stops_def last_names_def last_error_def split: sum.splits)
next
  case (Cons a ps)
  from Cons.prems obtain nxt where
    resp: "github env (trace s) (token rs) (request rs page) = Inr (a, nxt)" and nz: "nxt \<noteq> 0"
    and rest: "served env rs (trace s @ [Api (token rs) (request rs page)]) nxt ps = Some (tr, p)"
    by (auto split: sum.splits if_splits)
  let ?s2 = "(emit (Api (token rs) (request rs page)) s)\<lparr>allRepos := allRepos s @ page_names rs a\<rparr>"
  have "list_by_org env rs page s = list_by_org env rs nxt ?s2"
    using resp nz Cons.prems(1)
    by (subst list_by_org.simps) (simp add: request_def emit_def append_org_page_names)
  moreover have "trace ?s2 = trace s @ [Api (token rs) (request rs page)]"
    by (simp add: emit_def)
  ultimately show ?case
    using Cons.IH[of ?s2 nxt] rest Cons.prems(1,3) by (simp add: emit_def)
qed

lemma list_by_user_served:
  assumes "org rs = ''''"
      and "served env rs (trace s) page ps = Some (tr, p)"
      and "stops (github env tr (token rs) (request rs p))"
  shows "list_by_user env rs page s =
           Some (s\<lparr>trace := tr @ [Api (token rs) (request rs p)],
                   allRepos := allRepos s @ concat (map (page_names rs) ps)
                                 @ last_names rs (github env tr (token rs) (request rs p))\<rparr>,
                 last_error (github env tr (token rs) (request rs p)))"
  using assms
proof (induction ps arbitrary: page s)
  case Nil
  then show ?case
    by (subst list_by_user.simps)
       (auto simp add: request_def emit_def append_user_page_names stops_def last_names_def
          last_error_def split: sum.splits)
next
  case (Cons a ps)
  from Cons.prems obtain nxt where
    resp: "github env (trace s) (token rs) (request rs page) = Inr (a, nxt)" and nz: "nxt \<noteq> 0"
    and rest: "served env rs (trace s @ [Api (token rs) (request rs page)]) nxt ps = Some (tr, p)"
    by (auto split: sum.splits if_splits)
  let ?s2 = "(emit (Api (token rs) (request rs page)) s)\<lparr>allRepos := allRepos s @ page_names rs a\<rparr>"
  have "list_by_user env rs page s = list_by_user env rs nxt ?s2"
    using resp nz Cons.prems(1)
    by (subst list_by_user.simps) (simp add: request_def emit_def append_user_page_names)
  moreover have "trace ?s2 = trace s @ [Api (token rs) (request rs page)]"
    by (simp add: emit_def)
  ultimately show ?case
    using Cons.IH[of ?s2 nxt] rest Cons.prems(1,3) by (simp add: emit_def)
qed

lemma loading_repos_served:
  assumes "org rs \<noteq> '''' \<or> user rs \<noteq> ''''"
      and "served env rs (trace s) 0 ps = Some (tr, p)"
      and "stops (github env tr (token rs) (request rs p))"
  shows "loading_repos env rs s =
           Some (s\<lparr>trace := tr @ [Api (token rs) (request rs p)],
                   allRepos := allRepos s @ concat (map (page_names rs) ps)
                                 @ last_names rs (github env tr (token rs) (request rs p))\<rparr>,
                 last_error (github env tr (token rs) (request rs p)))"
proof (cases "org rs = ''''")
  case True
  with assms(1) have "loading_repos env rs s = list_by_user env rs 0 s"
    by (simp add: loading_repos_def)
  with list_by_user_served[OF True assms(2,3)] show ?thesis by simp
next
  case False
  then have "loading_repos env rs s = list_by_org env rs 0 s"
    by (simp add: loading_repos_def)
  with list_by_org_served[OF False assms(2,3)] show ?thesis by simp
qed

lemma served_length:
  "served env rs tr0 page ps = Some (tr, p) \<Longrightarrow> length tr = length tr0 + length ps"
  by (induction ps arbitrary: tr0 page) (auto split: sum.splits if_splits)

text \<open>
  A page loop that returns has added requests only: no event that changes the file
  system, and nothing to \<^verbatim>\<open>currentRepos\<close>.
\<close>

lemma list_by_org_frame:
  assumes "list_by_org env rs page s = Some y"
  shows "filter mutation (trace (fst y)) = filter mutation (trace s)
         \<and> currentRepos (fst y) = currentRepos s"
  using assms
proof (induction env rs page s y rule: list_by_org.raw_induct[rotated 1, consumes 1])
  case (1 f env rs page s y)
  from "1"(2) show ?case
    by (auto simp: Let_def emit_def split: sum.splits if_splits dest!: "1"(1))
qed

lemma list_by_user_frame:
  assumes "list_by_user env rs page s = Some y"
  shows "filter mutation (trace (fst y)) = filter mutation (trace s)
         \<and> currentRepos (fst y) = currentRepos s"
  using assms
proof (induction env rs page s y rule: list_by_user.raw_induct[rotated 1, consumes 1])
  case (1 f env rs page s y)
  from "1"(2) show ?case
    by (auto simp: Let_def emit_def split: sum.splits if_splits dest!: "1"(1))
qed

lemma loading_repos_frame:
  assumes "loading_repos env rs s = Some (s', err)"
  shows "filter mutation (trace s') = filter mutation (trace s)
         \<and> currentRepos s' = currentRepos s"
  using assms list_by_org_frame[of env rs 0 s "(s', err)"] list_by_user_frame[of env rs 0 s "(s', err)"]
  by (auto simp: loading_repos_def split: if_splits)

text \<open>
  The loop by organization reads three fields of the configuration: the organization,
  its type filter and the token.
\<close>

lemma list_by_org_Some_cong:
  assumes "list_by_org env a page s = Some y"
      and "org a = org b" and "orgRepoType a = orgRepoType b" and "token a = token b"
  shows "list_by_org env b page s = Some y"
  using assms
proof (induction env a page s y rule: list_by_org.raw_induct[rotated 1, consumes 1])
  case (1 f env a page s y)
  show ?case
  proof (cases "github env (trace s) (token b)
                  (Repositories_ListByOrg (org b) (orgRepoType b) \<lparr>Page = page, PerPage = 100\<rparr>)")
    case (Inl err)
    with "1.prems" "1.hyps" show ?thesis
      by (subst list_by_org.simps) (simp add: Let_def)
  next
    case (Inr pg)
    obtain repos nxt where pg: "pg = (repos, nxt)" by (cases pg)
    show ?thesis
    proof (cases "nxt = 0")
      case True
      with Inr pg "1.prems" "1.hyps" show ?thesis
        by (subst list_by_org.simps) (simp add: Let_def)
    next
      case False
      with Inr pg "1.prems" "1.hyps" have
        "f env a nxt ((emit (Api (token b)
             (Repositories_ListByOrg (org b) (orgRepoType b) \<lparr>Page = page, PerPage = 100\<rparr>)) s)
           \<lparr>allRepos := append_org_page repos (allRepos s)\<rparr>) = Some y"
        by (simp add: Let_def emit_def)
      from "1.IH"[OF this "1.prems"] False Inr pg show ?thesis
        by (subst list_by_org.simps) (simp add: Let_def emit_def)
    qed
  qed
qed

lemma list_by_org_cong:
  assumes "org a = org b" and "orgRepoType a = orgRepoType b" and "token a = token b"
  shows "list_by_org env a page s = list_by_org env b page s"
proof (cases "list_by_org env a page s")
  case None
  show ?thesis
  proof (cases "list_by_org env b page s")
    case (Some y)
    from list_by_org_Some_cong[OF Some] assms None show ?thesis by simp
  qed (simp add: None)
next
  case (Some y)
  from list_by_org_Some_cong[OF Some assms] Some show ?thesis by simp
qed

text \<open>
  The first page of the provider \<open>two_pages\<close>, as the user configuration asks for it.
\<close>

lemma served_first_page:
  "served (world two_pages d) of_user tr 0 [[repo ''a'' False, nameless, repo ''b'' True]]
     = Some (tr @ [Api ''t'' (request of_user 0)], 2)"
  by (simp add: world_def two_pages_def request_def of_user_def page_of_def)

text \<open>
  Claim C8. Let the provider answer the requests of the remote lister with the pages
  \<open>ps\<close>, each announcing a further page, and then with a page \<open>repos\<close> whose
  \<^verbatim>\<open>NextPage\<close> is 0. Then the lister returns without an error, having appended to
  \<^verbatim>\<open>allRepos\<close> the names of all these pages in order, without the entries that have
  no name and, in user mode with forks excluded, without the entries flagged as forks.
  It has made one request per page and none after the page whose
  \<^verbatim>\<open>NextPage\<close> is 0.
\<close>

theorem remote_lister_pages:
  assumes "org rs \<noteq> '''' \<or> user rs \<noteq> ''''"
      and "served env rs (trace s) 0 ps = Some (tr, p)"
      and "github env tr (token rs) (request rs p) = Inr (repos, 0)"
  shows "loading_repos env rs s =
           Some (s\<lparr>trace := tr @ [Api (token rs) (request rs p)],
                   allRepos := allRepos s @ concat (map (page_names rs) (ps @ [repos]))\<rparr>, None)
         \<and> length tr = length (trace s) + length ps"
proof -
  from assms(3) have "stops (github env tr (token rs) (request rs p))"
    by (simp add: stops_def)
  from loading_repos_served[OF assms(1,2) this] assms(3) served_length[OF assms(2)]
  show ?thesis
    by (simp add: last_names_def last_error_def)
qed

theorem remote_lister_pages_witness:
  "served (world two_pages (Inr in_sync)) of_user [] 0
       [[repo ''a'' False, nameless, repo ''b'' True]]
     = Some ([Api ''t'' (request of_user 0)], 2)
   \<and> github (world two_pages (Inr in_sync)) [Api ''t'' (request of_user 0)] ''t''
       (request of_user 2) = Inr ([repo ''c'' False], 0)
   \<and> loading_repos (world two_pages (Inr in_sync)) of_user
       \<lparr>trace = [], allRepos = [], currentRepos = []\<rparr> =
       Some (\<lparr>trace = [Api ''t'' (request of_user 0), Api ''t'' (request of_user 2)],
              allRepos = [''a'', ''c''], currentRepos = []\<rparr>, None)"
proof -
  let ?W = "world two_pages (Inr in_sync)"
  let ?s = "\<lparr>trace = [], allRepos = [], currentRepos = []\<rparr>"
  have 1: "org of_user \<noteq> '''' \<or> user of_user \<noteq> ''''"
    by (simp add: of_user_def)
  have 2: "served ?W of_user (trace ?s) 0 [[repo ''a'' False, nameless, repo ''b'' True]]
             = Some ([Api ''t'' (request of_user 0)], 2)"
    using served_first_page[of "Inr in_sync" "[]"] by simp
  have 3: "github ?W [Api ''t'' (request of_user 0)] (token of_user) (request of_user 2)
             = Inr ([repo ''c'' False], 0)"
    by (simp add: world_def two_pages_def request_def of_user_def page_of_def)
  from remote_lister_pages[OF 1 2 3] 2 3 show ?thesis
    by (simp add: page_names_def kept_def repo_def nameless_def of_user_def)
qed

subsection \<open>Goroutines\<close>









text \<open>
  A property of the state that every task function and the logger preserve holds
  after every run of the goroutines.
\<close>

lemma step_preserves:
  assumes "\<And>s s' err. task t s = Some (s', err) \<Longrightarrow> Q s \<Longrightarrow> Q s'"
      and "\<And>line s. Q s \<Longrightarrow> Q (log_Printf line s)"
      and "step (t, p) s = Some (g', s')" and "Q s"
  shows "Q s' \<and> fst g' = t"
proof (cases p)
  case (Returned err)
  with assms(2-4) show ?thesis by (cases err) auto
qed (use assms in \<open>auto split: option.splits\<close>)

lemma finish_preserves:
  assumes "\<And>s s' err. task t s = Some (s', err) \<Longrightarrow> Q s \<Longrightarrow> Q s'"
      and "\<And>line s. Q s \<Longrightarrow> Q (log_Printf line s)"
      and "finish (t, p) s = Some s'" and "Q s"
  shows "Q s'"
proof -
  from assms(3) obtain g1 s1 g2 s2 g3 where
    1: "step (t, p) s = Some (g1, s1)" and 2: "step g1 s1 = Some (g2, s2)"
    and 3: "step g2 s2 = Some (g3, s')"
    by (auto simp: finish_def split: option.splits)
  from step_preserves[OF assms(1,2) 1 assms(4)] have q1: "Q s1" and "fst g1 = t"
    by simp_all
  then obtain p1 where g1: "g1 = (t, p1)" by (cases g1) auto
  from step_preserves[OF assms(1,2) 2[unfolded g1] q1] have q2: "Q s2" and "fst g2 = t"
    by simp_all
  then obtain p2 where g2: "g2 = (t, p2)" by (cases g2) auto
  from step_preserves[OF assms(1,2) 3[unfolded g2] q2] show ?thesis
    by simp
qed

lemma finish_all_preserves:
  assumes "\<And>t s s' err. t \<in> fst ` set gs \<Longrightarrow> task t s = Some (s', err) \<Longrightarrow> Q s \<Longrightarrow> Q s'"
      and "\<And>line s. Q s \<Longrightarrow> Q (log_Printf line s)"
      and "finish_all gs s = Some s'" and "Q s"
  shows "Q s'"
  using assms
proof (induction gs arbitrary: s)
  case Nil
  then show ?case by simp
next
  case (Cons g gs)
  obtain t p where g: "g = (t, p)" by (cases g)
  from Cons.prems(3) g obtain s1 where
    f: "finish (t, p) s = Some s1" and rest: "finish_all gs s1 = Some s'"
    by (auto split: option.splits)
  have q1: "Q s1"
    by (rule finish_preserves[OF _ Cons.prems(2) f Cons.prems(4)])
       (rule Cons.prems(1), simp_all add: g)
  show ?case
    by (rule Cons.IH[OF _ Cons.prems(2) rest q1]) (rule Cons.prems(1), auto)
qed

lemma run_goroutines_preserves:
  assumes "\<And>t s s' err. t \<in> fst ` set gs \<Longrightarrow> task t s = Some (s', err) \<Longrightarrow> Q s \<Longrightarrow> Q s'"
      and "\<And>line s. Q s \<Longrightarrow> Q (log_Printf line s)"
      and "run_goroutines ks gs s = Some s'" and "Q s"
  shows "Q s'"
  using assms
proof (induction ks arbitrary: gs s)
  case Nil
  then show ?case using finish_all_preserves[of gs Q s s'] by auto
next
  case (Cons k ks)
  show ?case
  proof (cases "gs = []")
    case True
    with Cons.prems show ?thesis by simp
  next
    case False
    define i where "i = k mod length gs"
    from False have i: "i < length gs" by (simp add: i_def)
    obtain t p where g: "gs ! i = (t, p)" by (cases "gs ! i")
    from i g have t: "t \<in> fst ` set gs" by (metis fst_conv image_eqI nth_mem)
    from Cons.prems(3) False g obtain g' s1 where
      stp: "step (t, p) s = Some (g', s1)" and run: "run_goroutines ks (gs[i := g']) s1 = Some s'"
      by (auto simp: i_def split: option.splits)
    have "Q s1 \<and> fst g' = t"
      by (rule step_preserves[OF _ Cons.prems(2) stp Cons.prems(4)]) (rule Cons.prems(1)[OF t])
    then have q1: "Q s1" and g': "fst g' = t" by simp_all
    have sub: "fst ` set (gs[i := g']) \<subseteq> fst ` set gs"
      using t g' by (auto dest!: subsetD[OF set_update_subset_insert])
    show ?thesis
      by (rule Cons.IH[OF _ Cons.prems(2) run q1]) (rule Cons.prems(1), use sub in auto)
  qed
qed

subsection \<open>Sync\<close>

text \<open>
  The state after the two listings, from what the remote lister returns; the error of
  the remote lister, if any, ends up in a log line only.
\<close>

lemma listings_eq:
  assumes "loading_repos env rs
             \<lparr>trace = [Log (''begin loading repos for '' @ org rs @ '' '' @ user rs)],
              allRepos = [], currentRepos = []\<rparr> = Some (s1, err)"
  shows "listings env rs =
           Some (s1\<lparr>trace := trace s1 @
                     [Log (case err of
                             None \<Rightarrow> ''finished loading repos for '' @ org rs @ '' '' @ user rs
                           | Some cause \<Rightarrow> ''error loading repos for '' @ org rs @ '' '' @ user rs
                                             @ '': '' @ cause),
                      Log (''begin loading repos already cloned in '' @ workdir rs),
                      ReadDir (workdir rs),
                      Log (''finished loading repos already cloned in '' @ workdir rs)],
                   currentRepos := currentRepos s1 @
                     local_names (ioutil_ReadDir env
                       (trace s1 @
                        [Log (case err of
                             None \<Rightarrow> ''finished loading repos for '' @ org rs @ '' '' @ user rs
                           | Some cause \<Rightarrow> ''error loading repos for '' @ org rs @ '' '' @ user rs
                                             @ '': '' @ cause),
                         Log (''begin loading repos already cloned in '' @ workdir rs)])
                       (workdir rs))\<rparr>)"
proof -
  let ?d = "''loading repos for '' @ org rs @ '' '' @ user rs"
  let ?s0 = "\<lparr>trace = [], allRepos = [], currentRepos = []\<rparr>"
  have "loading_repos env rs (?s0\<lparr>trace := trace ?s0 @ [Log (''begin '' @ ?d)]\<rparr>) = Some (s1, err)"
    using assms by simp
  from Task_Run_eq[of "loading_repos env rs" ?s0 ?d, OF this]
  have 1: "Task_Run (NewTask (loading_repos env rs) ?d) ?s0 =
             Some (s1\<lparr>trace := trace s1 @ [Log (case err of None \<Rightarrow> ''finished '' @ ?d
                                                  | Some cause \<Rightarrow> ''error '' @ ?d @ '': '' @ cause)]\<rparr>)" .
  show ?thesis
    unfolding listings_def 1
    by (cases err) (simp_all add: Task_Run_def NewTask_def loading_cloned_eq log_Printf_def emit_def)
qed

lemma listings_no_mutation:
  assumes "listings env rs = Some s"
  shows "filter mutation (trace s) = []"
proof -
  let ?d = "''loading repos for '' @ org rs @ '' '' @ user rs"
  let ?s0 = "log_Printf (''begin '' @ ?d) \<lparr>trace = [], allRepos = [], currentRepos = []\<rparr>"
  from assms obtain s1 err where
    1: "loading_repos env rs ?s0 = Some (s1, err)"
    by (auto simp: listings_def Task_Run_def NewTask_def split: option.splits)
  from loading_repos_frame[OF 1] have "filter mutation (trace s1) = []"
    by (simp add: log_Printf_def emit_def)
  moreover from 1 have "loading_repos env rs
             \<lparr>trace = [Log (''begin loading repos for '' @ org rs @ '' '' @ user rs)],
              allRepos = [], currentRepos = []\<rparr> = Some (s1, err)"
    by (simp add: log_Printf_def emit_def)
  from listings_eq[OF this] assms have "\<exists>es. trace s = trace s1 @ es \<and> filter mutation es = []"
    by auto
  ultimately show ?thesis by auto
qed

text \<open>
  \<^verbatim>\<open>Sync\<close> after the listings (lines 190--240).
\<close>

lemma Sync_after_listings:
  assumes "listings env rs = Some s"
  shows "Sync env sched rs =
           (if Difference (currentRepos s) (allRepos s) = []
               \<and> Difference (allRepos s) (currentRepos s) = []
            then Some (log_Printf ''nothing to do!'' s, None)
            else (case os_MkdirAll env (trace s) (archivedir rs) of
                    Some err \<Rightarrow> Some (emit (MkdirAll (archivedir rs)) s, Some err)
                  | None \<Rightarrow>
                      (case run_goroutines sched
                              (archivers env rs (Difference (currentRepos s) (allRepos s))
                               @ cloners env rs (Difference (allRepos s) (currentRepos s)))
                              (emit (MkdirAll (archivedir rs)) s) of
                         None \<Rightarrow> None
                       | Some s3 \<Rightarrow> Some (s3, None))))"
proof -
  from assms obtain s1 where
    1: "Task_Run (NewTask (loading_repos env rs)
                   (''loading repos for '' @ org rs @ '' '' @ user rs))
          \<lparr>trace = [], allRepos = [], currentRepos = []\<rparr> = Some s1"
    and 2: "Task_Run (NewTask (loading_cloned env rs)
                   (''loading repos already cloned in '' @ workdir rs)) s1 = Some s"
    unfolding listings_def by (auto split: option.splits)
  from 1 2 show ?thesis
    by (simp add: Sync_def Let_def)
qed


text \<open>
  The listings of the examples, evaluated.
\<close>

lemma listings_two_pages:
  "listings (world two_pages d) of_user =
     Some \<lparr>trace =
             [Log ''begin loading repos for  u'',
              Api ''t'' (Repositories_List ''u'' ''all'' \<lparr>Page = 0, PerPage = 1000\<rparr>),
              Api ''t'' (Repositories_List ''u'' ''all'' \<lparr>Page = 2, PerPage = 1000\<rparr>),
              Log ''finished loading repos for  u'',
              Log ''begin loading repos already cloned in w'',
              ReadDir ''w'',
              Log ''finished loading repos already cloned in w''],
           allRepos = [''a'', ''c''],
           currentRepos = local_names d\<rparr>"
proof -
  let ?W = "world two_pages d"
  let ?s0 = "\<lparr>trace = [Log (''begin loading repos for '' @ org of_user @ '' '' @ user of_user)],
              allRepos = [], currentRepos = []\<rparr>"
  have 1: "org of_user \<noteq> '''' \<or> user of_user \<noteq> ''''"
    by (simp add: of_user_def)
  have 2: "served ?W of_user (trace ?s0) 0 [[repo ''a'' False, nameless, repo ''b'' True]]
             = Some (trace ?s0 @ [Api ''t'' (request of_user 0)], 2)"
    by (rule served_first_page)
  have 3: "github ?W (trace ?s0 @ [Api ''t'' (request of_user 0)]) (token of_user) (request of_user 2)
             = Inr ([repo ''c'' False], 0)"
    by (simp add: world_def two_pages_def request_def of_user_def page_of_def)
  then have 4: "stops (github ?W (trace ?s0 @ [Api ''t'' (request of_user 0)]) (token of_user)
                        (request of_user 2))"
    by (simp add: stops_def)
  have "loading_repos ?W of_user ?s0 =
          Some (\<lparr>trace = [Log ''begin loading repos for  u'',
              Api ''t'' (Repositories_List ''u'' ''all'' \<lparr>Page = 0, PerPage = 1000\<rparr>),
              Api ''t'' (Repositories_List ''u'' ''all'' \<lparr>Page = 2, PerPage = 1000\<rparr>)],
              allRepos = [''a'', ''c''], currentRepos = []\<rparr>, None)"
    unfolding loading_repos_served[OF 1 2 4] 3
    by (simp add: last_names_def last_error_def page_names_def kept_def repo_def nameless_def
          request_def of_user_def)
  from listings_eq[OF this] show ?thesis
    by (simp add: of_user_def world_def)
qed


lemma run_example:
  "finish_all
     (archivers (world pages d) of_user [''x''] @ cloners (world pages d) of_user [''c''])
     \<lparr>trace = tr, allRepos = all, currentRepos = cur\<rparr> =
   Some \<lparr>trace = tr @
           [Log ''begin archiving x'', Rename (Join ''w'' ''x'') (Join ''old'' ''x''),
            Log ''finished archiving x'', Log ''begin cloning c'',
            GitClone ''git@github.com:u/c'' (Join ''w'' ''c''), Log ''finished cloning c''],
         allRepos = all, currentRepos = cur\<rparr>"
  by (simp add: archivers_def cloners_def finish_def NewTask_def archiving_def cloning_def
        git_clone_from_def world_def of_user_def log_Printf_def emit_def)

text \<open>
  Claim C2. After the two listings, \<^verbatim>\<open>Sync\<close> goes on with
  \<open>Difference currentRepos allRepos\<close> as the repositories to archive and
  \<open>Difference allRepos currentRepos\<close> as the repositories to clone: it stops with
  \<open>nothing to do!\<close> when both are empty, and otherwise starts one archiver for each
  name of the first list and one cloner for each name of the second. For all lists
  \<open>local\<close> and \<open>remote\<close>, a name that is in both is in neither difference.
\<close>

theorem Sync_reconciles_by_Difference:
  assumes "listings env rs = Some s"
  shows "Sync env sched rs =
           (if length (Difference (currentRepos s) (allRepos s))
                 + length (Difference (allRepos s) (currentRepos s)) = 0
            then Some (log_Printf ''nothing to do!'' s, None)
            else (case os_MkdirAll env (trace s) (archivedir rs) of
                    Some err \<Rightarrow> Some (emit (MkdirAll (archivedir rs)) s, Some err)
                  | None \<Rightarrow>
                      (case run_goroutines sched
                              (archivers env rs (Difference (currentRepos s) (allRepos s))
                               @ cloners env rs (Difference (allRepos s) (currentRepos s)))
                              (emit (MkdirAll (archivedir rs)) s) of
                         None \<Rightarrow> None
                       | Some s3 \<Rightarrow> Some (s3, None))))
         \<and> (name \<in> set local \<and> name \<in> set remote \<longrightarrow>
              name \<notin> set (Difference local remote) \<and> name \<notin> set (Difference remote local))"
  using Sync_after_listings[OF assms, of sched] by (simp add: Difference_filter)

theorem Sync_reconciles_by_Difference_witness:
  "listings (world two_pages (Inr checkouts)) of_user =
     Some \<lparr>trace =
             [Log ''begin loading repos for  u'',
              Api ''t'' (Repositories_List ''u'' ''all'' \<lparr>Page = 0, PerPage = 1000\<rparr>),
              Api ''t'' (Repositories_List ''u'' ''all'' \<lparr>Page = 2, PerPage = 1000\<rparr>),
              Log ''finished loading repos for  u'',
              Log ''begin loading repos already cloned in w'',
              ReadDir ''w'',
              Log ''finished loading repos already cloned in w''],
           allRepos = [''a'', ''c''],
           currentRepos = [''a'', ''x'']\<rparr>
   \<and> Sync (world two_pages (Inr checkouts)) [] of_user =
     Some (\<lparr>trace =
             [Log ''begin loading repos for  u'',
              Api ''t'' (Repositories_List ''u'' ''all'' \<lparr>Page = 0, PerPage = 1000\<rparr>),
              Api ''t'' (Repositories_List ''u'' ''all'' \<lparr>Page = 2, PerPage = 1000\<rparr>),
              Log ''finished loading repos for  u'',
              Log ''begin loading repos already cloned in w'',
              ReadDir ''w'',
              Log ''finished loading repos already cloned in w'',
              MkdirAll ''old'',
              Log ''begin archiving x'', Rename (Join ''w'' ''x'') (Join ''old'' ''x''),
              Log ''finished archiving x'', Log ''begin cloning c'',
              GitClone ''git@github.com:u/c'' (Join ''w'' ''c''), Log ''finished cloning c''],
            allRepos = [''a'', ''c''],
            currentRepos = [''a'', ''x'']\<rparr>, None)
   \<and> ''a'' \<notin> set (Difference [''a'', ''x''] [''a'', ''c''])
   \<and> ''a'' \<notin> set (Difference [''a'', ''c''] [''a'', ''x''])"
proof -
  have l: "listings (world two_pages (Inr checkouts)) of_user =
     Some \<lparr>trace =
             [Log ''begin loading repos for  u'',
              Api ''t'' (Repositories_List ''u'' ''all'' \<lparr>Page = 0, PerPage = 1000\<rparr>),
              Api ''t'' (Repositories_List ''u'' ''all'' \<lparr>Page = 2, PerPage = 1000\<rparr>),
              Log ''finished loading repos for  u'',
              Log ''begin loading repos already cloned in w'',
              ReadDir ''w'',
              Log ''finished loading repos already cloned in w''],
           allRepos = [''a'', ''c''],
           currentRepos = [''a'', ''x'']\<rparr>"
    by (simp add: listings_two_pages local_names_def checkouts_def)
  have d: "Difference [''a'', ''x''] [''a'', ''c''] = [''x'']"
          "Difference [''a'', ''c''] [''a'', ''x''] = [''c'']"
    by (simp_all add: Difference_def)
  have m: "os_MkdirAll (world two_pages (Inr checkouts)) tr ''old'' = None" for tr
    by (simp add: world_def)
  have a: "archivedir of_user = ''old''"
    by (simp add: of_user_def)
  from Sync_reconciles_by_Difference[OF l, of "[]" "''a''" "[''a'', ''x'']" "[''a'', ''c'']"]
  show ?thesis
    unfolding l by (simp add: d m a run_example emit_def)
qed

text \<open>
  Claim C5. Whenever the two listings return and both differences are empty,
  \<^verbatim>\<open>Sync\<close> writes the line \<open>nothing to do!\<close> after the listings and returns no
  error. Nothing more is in its trace: no directory was created, no goroutine was
  started, and no event of the whole run changes the file system.
\<close>

theorem Sync_nothing_to_do:
  assumes "listings env rs = Some s"
      and "Difference (currentRepos s) (allRepos s) = []"
      and "Difference (allRepos s) (currentRepos s) = []"
  shows "Sync env sched rs = Some (s\<lparr>trace := trace s @ [Log ''nothing to do!'']\<rparr>, None)
         \<and> filter mutation (trace s @ [Log ''nothing to do!'']) = []"
  using Sync_after_listings[OF assms(1), of sched] assms(2,3) listings_no_mutation[OF assms(1)]
  by (simp add: log_Printf_def emit_def)

theorem Sync_nothing_to_do_witness:
  "listings (world two_pages (Inr in_sync)) of_user =
     Some \<lparr>trace =
             [Log ''begin loading repos for  u'',
              Api ''t'' (Repositories_List ''u'' ''all'' \<lparr>Page = 0, PerPage = 1000\<rparr>),
              Api ''t'' (Repositories_List ''u'' ''all'' \<lparr>Page = 2, PerPage = 1000\<rparr>),
              Log ''finished loading repos for  u'',
              Log ''begin loading repos already cloned in w'',
              ReadDir ''w'',
              Log ''finished loading repos already cloned in w''],
           allRepos = [''a'', ''c''],
           currentRepos = [''a'', ''c'']\<rparr>
   \<and> Difference [''a'', ''c''] [''a'', ''c''] = []
   \<and> Sync (world two_pages (Inr in_sync)) [2, 0, 1] of_user =
     Some (\<lparr>trace =
             [Log ''begin loading repos for  u'',
              Api ''t'' (Repositories_List ''u'' ''all'' \<lparr>Page = 0, PerPage = 1000\<rparr>),
              Api ''t'' (Repositories_List ''u'' ''all'' \<lparr>Page = 2, PerPage = 1000\<rparr>),
              Log ''finished loading repos for  u'',
              Log ''begin loading repos already cloned in w'',
              ReadDir ''w'',
              Log ''finished loading repos already cloned in w'',
              Log ''nothing to do!''],
            allRepos = [''a'', ''c''],
            currentRepos = [''a'', ''c'']\<rparr>, None)"
proof -
  have l: "listings (world two_pages (Inr in_sync)) of_user =
     Some \<lparr>trace =
             [Log ''begin loading repos for  u'',
              Api ''t'' (Repositories_List ''u'' ''all'' \<lparr>Page = 0, PerPage = 1000\<rparr>),
              Api ''t'' (Repositories_List ''u'' ''all'' \<lparr>Page = 2, PerPage = 1000\<rparr>),
              Log ''finished loading repos for  u'',
              Log ''begin loading repos already cloned in w'',
              ReadDir ''w'',
              Log ''finished loading repos already cloned in w''],
           allRepos = [''a'', ''c''],
           currentRepos = [''a'', ''c'']\<rparr>"
    by (simp add: listings_two_pages local_names_def in_sync_def)
  have d: "Difference [''a'', ''c''] [''a'', ''c''] = []"
    by (simp add: Difference_def)
  from Sync_nothing_to_do[OF l, of "[2, 0, 1]"] d l show ?thesis
    by simp
qed






text \<open>
  Claim C3 fails on the code at the input of the next theorem: in a dry run with one
  or more stale checkouts, \<^verbatim>\<open>Sync\<close> still creates the archive directory (the event
  \<open>MkdirAll\<close>), before it logs the planned operations without doing them.
\<close>

theorem Sync_dryrun_creates_archivedir:
  "Sync (world no_repos (Inr checkouts)) [] (of_user\<lparr>dryrun := True\<rparr>) =
     Some (\<lparr>trace =
             [Log ''begin loading repos for  u'',
              Api ''t'' (Repositories_List ''u'' ''all'' \<lparr>Page = 0, PerPage = 1000\<rparr>),
              Log ''finished loading repos for  u'',
              Log ''begin loading repos already cloned in w'',
              ReadDir ''w'',
              Log ''finished loading repos already cloned in w'',
              MkdirAll ''old'',
              Log ''begin archiving a'', Log ''finished archiving a'',
              Log ''begin archiving x'', Log ''finished archiving x''],
            allRepos = [],
            currentRepos = [''a'', ''x'']\<rparr>, None)"
proof -
  let ?W = "world no_repos (Inr checkouts)"
  let ?rs = "of_user\<lparr>dryrun := True\<rparr>"
  let ?s0 = "\<lparr>trace = [Log (''begin loading repos for '' @ org ?rs @ '' '' @ user ?rs)],
              allRepos = [], currentRepos = []\<rparr>"
  have 1: "org ?rs \<noteq> '''' \<or> user ?rs \<noteq> ''''"
    by (simp add: of_user_def)
  have 2: "served ?W ?rs (trace ?s0) 0 [] = Some (trace ?s0, 0)"
    by simp
  have 3: "github ?W (trace ?s0) (token ?rs) (request ?rs 0) = Inr ([], 0)"
    by (simp add: world_def no_repos_def)
  then have 4: "stops (github ?W (trace ?s0) (token ?rs) (request ?rs 0))"
    by (simp add: stops_def)
  have "loading_repos ?W ?rs ?s0 =
          Some (\<lparr>trace = [Log ''begin loading repos for  u'',
              Api ''t'' (Repositories_List ''u'' ''all'' \<lparr>Page = 0, PerPage = 1000\<rparr>)],
              allRepos = [], currentRepos = []\<rparr>, None)"
    unfolding loading_repos_served[OF 1 2 4] 3
    by (simp add: last_names_def last_error_def request_def of_user_def page_names_def)
  from listings_eq[OF this]
  have l: "listings ?W ?rs =
     Some \<lparr>trace =
             [Log ''begin loading repos for  u'',
              Api ''t'' (Repositories_List ''u'' ''all'' \<lparr>Page = 0, PerPage = 1000\<rparr>),
              Log ''finished loading repos for  u'',
              Log ''begin loading repos already cloned in w'',
              ReadDir ''w'',
              Log ''finished loading repos already cloned in w''],
           allRepos = [],
           currentRepos = [''a'', ''x'']\<rparr>"
    by (simp add: of_user_def world_def local_names_def checkouts_def)
  have d: "Difference [''a'', ''x''] [] = [''a'', ''x'']" "Difference [] [''a'', ''x''] = []"
    by (simp_all add: Difference_def)
  have m: "os_MkdirAll ?W tr ''old'' = None" for tr
    by (simp add: world_def)
  have a: "archivedir ?rs = ''old''"
    by (simp add: of_user_def)
  have r: "finish_all (archivers ?W ?rs [''a'', ''x''] @ cloners ?W ?rs [])
     \<lparr>trace = tr, allRepos = all, currentRepos = cur\<rparr> =
   Some \<lparr>trace = tr @
           [Log ''begin archiving a'', Log ''finished archiving a'',
            Log ''begin archiving x'', Log ''finished archiving x''],
         allRepos = all, currentRepos = cur\<rparr>" for tr all cur
    by (simp add: archivers_def cloners_def finish_def NewTask_def archiving_def
          log_Printf_def emit_def)
  show ?thesis
    unfolding Sync_after_listings[OF l] by (simp add: d m a r emit_def)
qed

text \<open>
  In a dry run the creation of the archive directory is the only event of
  \<^verbatim>\<open>Sync\<close> that changes the file system: no rename and no clone happens.
\<close>

lemma dryrun_mutations:
  assumes "dryrun rs" and "Sync env sched rs = Some (s', res)"
  shows "filter mutation (trace s') = [] \<or> filter mutation (trace s') = [MkdirAll (archivedir rs)]"
proof -
  from assms(2) obtain s where l: "listings env rs = Some s"
    by (auto simp: Sync_def listings_def split: option.splits)
  have none: "filter mutation (trace s) = []"
    by (rule listings_no_mutation[OF l])
  let ?gs = "archivers env rs (Difference (currentRepos s) (allRepos s))
             @ cloners env rs (Difference (allRepos s) (currentRepos s))"
  let ?Q = "\<lambda>x. filter mutation (trace x) = [MkdirAll (archivedir rs)]"
  have run: "?Q x'" if "run_goroutines sched ?gs x = Some x'" and "?Q x" for x x'
  proof (rule run_goroutines_preserves[where Q = ?Q, OF _ _ that])
    fix t err and x x' :: state
    assume "t \<in> fst ` set ?gs" and "task t x = Some (x', err)" and "?Q x"
    with assms(1) show "?Q x'"
      by (auto simp: archivers_def cloners_def NewTask_def archiving_def cloning_def)
  next
    fix line and x :: state
    assume "?Q x"
    then show "?Q (log_Printf line x)"
      by (simp add: log_Printf_def emit_def)
  qed
  from assms(2) show ?thesis
    unfolding Sync_after_listings[OF l]
    using none run[of "emit (MkdirAll (archivedir rs)) s"]
    by (auto simp: log_Printf_def emit_def split: if_splits option.splits)
qed

subsection \<open>main\<close>

text \<open>
  In organization mode the fields \<^verbatim>\<open>userRepoType\<close> and \<^verbatim>\<open>userRepoForks\<close> are never read.
\<close>

lemma Sync_ignores_user_filters:
  assumes "org rs \<noteq> ''''"
  shows "Sync env sched (rs\<lparr>userRepoType := t, userRepoForks := f\<rparr>) = Sync env sched rs"
proof -
  let ?rs = "rs\<lparr>userRepoType := t, userRepoForks := f\<rparr>"
  have 1: "loading_repos env ?rs = loading_repos env rs"
    using assms by (auto simp: loading_repos_def fun_eq_iff intro: list_by_org_cong)
  have 2: "loading_cloned env ?rs = loading_cloned env rs"
    by (simp add: loading_cloned_def fun_eq_iff)
  have a: "archiving env ?rs = archiving env rs"
    by (simp add: archiving_def fun_eq_iff)
  have 3: "archivers env ?rs = archivers env rs"
    by (rule ext) (simp only: archivers_def a)
  have c: "cloning env ?rs = cloning env rs"
    by (simp add: cloning_def git_clone_from_def fun_eq_iff)
  have 4: "cloners env ?rs = cloners env rs"
    by (rule ext) (simp only: cloners_def c)
  show ?thesis
    by (simp add: Sync_def 1 2 3 4 cong: option.case_cong if_cong)
qed

text \<open>
  The run of the example with both a user and an organization.
\<close>

lemma Sync_of_both:
  "Sync (world two_pages (Inr checkouts)) [] of_both =
     Some (\<lparr>trace =
             [Log ''begin loading repos for o u'',
              Api ''t'' (Repositories_ListByOrg ''o'' ''all'' \<lparr>Page = 0, PerPage = 100\<rparr>),
              Api ''t'' (Repositories_ListByOrg ''o'' ''all'' \<lparr>Page = 2, PerPage = 100\<rparr>),
              Log ''finished loading repos for o u'',
              Log ''begin loading repos already cloned in w'',
              ReadDir ''w'',
              Log ''finished loading repos already cloned in w'',
              MkdirAll ''old'',
              Log ''begin archiving x'', Rename (Join ''w'' ''x'') (Join ''old'' ''x''),
              Log ''finished archiving x'',
              Log ''begin cloning b'', GitClone ''git@github.com:o/b'' (Join ''w'' ''b''),
              Log ''finished cloning b'',
              Log ''begin cloning c'', GitClone ''git@github.com:o/c'' (Join ''w'' ''c''),
              Log ''finished cloning c''],
            allRepos = [''a'', ''b'', ''c''],
            currentRepos = [''a'', ''x'']\<rparr>, None)"
proof -
  let ?W = "world two_pages (Inr checkouts)"
  let ?s0 = "\<lparr>trace = [Log (''begin loading repos for '' @ org of_both @ '' '' @ user of_both)],
              allRepos = [], currentRepos = []\<rparr>"
  have 1: "org of_both \<noteq> '''' \<or> user of_both \<noteq> ''''"
    by (simp add: of_both_def)
  have 2: "served ?W of_both (trace ?s0) 0 [[repo ''a'' False, nameless, repo ''b'' True]]
             = Some (trace ?s0 @ [Api ''t'' (request of_both 0)], 2)"
    by (simp add: world_def two_pages_def request_def of_both_def page_of_def)
  have 3: "github ?W (trace ?s0 @ [Api ''t'' (request of_both 0)]) (token of_both)
             (request of_both 2) = Inr ([repo ''c'' False], 0)"
    by (simp add: world_def two_pages_def request_def of_both_def page_of_def)
  then have 4: "stops (github ?W (trace ?s0 @ [Api ''t'' (request of_both 0)]) (token of_both)
                        (request of_both 2))"
    by (simp add: stops_def)
  have "loading_repos ?W of_both ?s0 =
          Some (\<lparr>trace = [Log ''begin loading repos for o u'',
              Api ''t'' (Repositories_ListByOrg ''o'' ''all'' \<lparr>Page = 0, PerPage = 100\<rparr>),
              Api ''t'' (Repositories_ListByOrg ''o'' ''all'' \<lparr>Page = 2, PerPage = 100\<rparr>)],
              allRepos = [''a'', ''b'', ''c''], currentRepos = []\<rparr>, None)"
    unfolding loading_repos_served[OF 1 2 4] 3
    by (simp add: last_names_def last_error_def page_names_def kept_def repo_def nameless_def
          request_def of_both_def)
  from listings_eq[OF this]
  have l: "listings ?W of_both =
     Some \<lparr>trace =
             [Log ''begin loading repos for o u'',
              Api ''t'' (Repositories_ListByOrg ''o'' ''all'' \<lparr>Page = 0, PerPage = 100\<rparr>),
              Api ''t'' (Repositories_ListByOrg ''o'' ''all'' \<lparr>Page = 2, PerPage = 100\<rparr>),
              Log ''finished loading repos for o u'',
              Log ''begin loading repos already cloned in w'',
              ReadDir ''w'',
              Log ''finished loading repos already cloned in w''],
           allRepos = [''a'', ''b'', ''c''],
           currentRepos = [''a'', ''x'']\<rparr>"
    by (simp add: of_both_def world_def local_names_def checkouts_def)
  have d: "Difference [''a'', ''x''] [''a'', ''b'', ''c''] = [''x'']"
          "Difference [''a'', ''b'', ''c''] [''a'', ''x''] = [''b'', ''c'']"
    by (simp_all add: Difference_def)
  have m: "os_MkdirAll ?W tr ''old'' = None" for tr
    by (simp add: world_def)
  have a: "archivedir of_both = ''old''"
    by (simp add: of_both_def)
  have r: "finish_all (archivers ?W of_both [''x''] @ cloners ?W of_both [''b'', ''c''])
     \<lparr>trace = tr, allRepos = all, currentRepos = cur\<rparr> =
   Some \<lparr>trace = tr @
           [Log ''begin archiving x'', Rename (Join ''w'' ''x'') (Join ''old'' ''x''),
            Log ''finished archiving x'',
            Log ''begin cloning b'', GitClone ''git@github.com:o/b'' (Join ''w'' ''b''),
            Log ''finished cloning b'',
            Log ''begin cloning c'', GitClone ''git@github.com:o/c'' (Join ''w'' ''c''),
            Log ''finished cloning c''],
         allRepos = all, currentRepos = cur\<rparr>" for tr all cur
    by (simp add: archivers_def cloners_def finish_def NewTask_def archiving_def cloning_def
          git_clone_from_def world_def of_both_def log_Printf_def emit_def)
  show ?thesis
    unfolding Sync_after_listings[OF l] by (simp add: d m a r emit_def)
qed

text \<open>
  Claim C10. When the organization and the user are both given (with the other
  required flags), \<^verbatim>\<open>main\<close> does not stop with a fatal startup error: it runs
  \<^verbatim>\<open>Sync\<close> on the configuration \<open>rs\<close> of the flags and ends as \<^verbatim>\<open>Sync\<close> does.
  There the organization takes precedence: the remote lister is the loop by
  organization, with the organization's type filter, so every named repository of a
  page is kept, forks included; the user's type filter and fork flag do not change
  the run; and a clone addresses \<open>git@github.com:<org>/<repo>\<close>.
\<close>

theorem org_takes_precedence:
  assumes "flag_org fl \<noteq> ''''" and "flag_user fl \<noteq> ''''"
      and "\<not> versionflag fl" and "flag_dir fl \<noteq> ''''" and "flag_archivedir fl \<noteq> ''''"
      and "flag_token fl \<noteq> ''''"
      and "rs = \<lparr>org = flag_org fl, orgRepoType = flag_orgRepoType fl,
                 user = flag_user fl, userRepoType = flag_userRepoType fl,
                 userRepoForks = flag_userRepoForks fl, workdir = flag_dir fl,
                 archivedir = flag_archivedir fl, token = flag_token fl,
                 dryrun = flag_dryrun fl\<rparr>"
  shows "main env sched Version fl =
           (case Sync env sched rs of
              None \<Rightarrow> None
            | Some (s, Some err) \<Rightarrow> Some (trace s @ [Log err], 1)
            | Some (s, None) \<Rightarrow> Some (trace s, 0))
         \<and> loading_repos env rs s = list_by_org env rs 0 s
         \<and> request rs page =
             Repositories_ListByOrg (org rs) (orgRepoType rs) \<lparr>Page = page, PerPage = 100\<rparr>
         \<and> page_names rs repos =
             map (\<lambda>repo. the (Name repo)) (filter (\<lambda>repo. Name repo \<noteq> None) repos)
         \<and> Sync env sched (rs\<lparr>userRepoType := t, userRepoForks := f\<rparr>) = Sync env sched rs
         \<and> cloning env rs r s =
             (if dryrun rs then Some (s, None)
              else Some (emit (GitClone (''git@github.com:'' @ org rs @ ''/'' @ r)
                                (Join (workdir rs) r)) s,
                         case git_clone env (trace s) (''git@github.com:'' @ org rs @ ''/'' @ r)
                                (Join (workdir rs) r) of
                           (output, Some err) \<Rightarrow> Some (err @ '' from '' @ output)
                         | (output, None) \<Rightarrow> None))"
proof -
  from assms have o: "org rs \<noteq> ''''" by simp
  have "main env sched Version fl =
           (case Sync env sched rs of
              None \<Rightarrow> None
            | Some (s, Some err) \<Rightarrow> Some (trace s @ [Log err], 1)
            | Some (s, None) \<Rightarrow> Some (trace s, 0))"
    using assms by (simp add: main_def Let_def)
  moreover from o have "loading_repos env rs s = list_by_org env rs 0 s"
    by (simp add: loading_repos_def)
  moreover from o have "request rs page =
             Repositories_ListByOrg (org rs) (orgRepoType rs) \<lparr>Page = page, PerPage = 100\<rparr>"
    by (simp add: request_def)
  moreover from o have "page_names rs repos =
             map (\<lambda>repo. the (Name repo)) (filter (\<lambda>repo. Name repo \<noteq> None) repos)"
    by (simp add: page_names_def kept_def cong: filter_cong)
  moreover note Sync_ignores_user_filters[OF o, where env = env and sched = sched and t = t and f = f]
  moreover from o have "cloning env rs r s =
             (if dryrun rs then Some (s, None)
              else Some (emit (GitClone (''git@github.com:'' @ org rs @ ''/'' @ r)
                                (Join (workdir rs) r)) s,
                         case git_clone env (trace s) (''git@github.com:'' @ org rs @ ''/'' @ r)
                                (Join (workdir rs) r) of
                           (output, Some err) \<Rightarrow> Some (err @ '' from '' @ output)
                         | (output, None) \<Rightarrow> None))"
    by (simp add: cloning_def git_clone_from_def split: prod.splits option.splits)
  ultimately show ?thesis by (intro conjI)
qed

theorem org_takes_precedence_witness:
  "flag_org both_flags \<noteq> '''' \<and> flag_user both_flags \<noteq> ''''
   \<and> main (world two_pages (Inr checkouts)) [] ''1.0'' both_flags =
       Some ([Log ''begin loading repos for o u'',
              Api ''t'' (Repositories_ListByOrg ''o'' ''all'' \<lparr>Page = 0, PerPage = 100\<rparr>),
              Api ''t'' (Repositories_ListByOrg ''o'' ''all'' \<lparr>Page = 2, PerPage = 100\<rparr>),
              Log ''finished loading repos for o u'',
              Log ''begin loading repos already cloned in w'',
              ReadDir ''w'',
              Log ''finished loading repos already cloned in w'',
              MkdirAll ''old'',
              Log ''begin archiving x'', Rename (Join ''w'' ''x'') (Join ''old'' ''x''),
              Log ''finished archiving x'',
              Log ''begin cloning b'', GitClone ''git@github.com:o/b'' (Join ''w'' ''b''),
              Log ''finished cloning b'',
              Log ''begin cloning c'', GitClone ''git@github.com:o/c'' (Join ''w'' ''c''),
              Log ''finished cloning c''], 0)
   \<and> Sync (world two_pages (Inr checkouts)) [] (of_both\<lparr>userRepoType := ''owner'', userRepoForks := True\<rparr>)
       = Sync (world two_pages (Inr checkouts)) [] of_both"
proof -
  have rs: "of_both = \<lparr>org = flag_org both_flags, orgRepoType = flag_orgRepoType both_flags,
                 user = flag_user both_flags, userRepoType = flag_userRepoType both_flags,
                 userRepoForks = flag_userRepoForks both_flags, workdir = flag_dir both_flags,
                 archivedir = flag_archivedir both_flags, token = flag_token both_flags,
                 dryrun = flag_dryrun both_flags\<rparr>"
    by (simp add: of_both_def both_flags_def)
  have f: "flag_org both_flags \<noteq> ''''" "flag_user both_flags \<noteq> ''''" "\<not> versionflag both_flags"
    "flag_dir both_flags \<noteq> ''''" "flag_archivedir both_flags \<noteq> ''''"
    "flag_token both_flags \<noteq> ''''"
    by (simp_all add: both_flags_def)
  from org_takes_precedence[OF f rs, where env = "world two_pages (Inr checkouts)"
      and sched = "[]" and Version = "''1.0''" and t = "''owner''" and f = True]
  show ?thesis
    using f(1,2) by (simp add: Sync_of_both)
qed

end
